theory Spec2Isabelle
  imports Main "HOL-Library.Word"
begin

unbundle bit_operations_syntax

section \<open>Text\<close>

text \<open>
  A Python \<open>str\<close> is a \<open>string\<close>: one \<open>char\<close> per character, read as a code point
  below 256. The task file and the description files are held as the text Python
  decodes them to, so \<open>bytes.decode()\<close> and the encoding on write are the identity;
  content that does not decode lies outside this model. Newline handling is the one of
  a POSIX host: a text-mode write stores \<open>\n\<close> as it is.
\<close>

abbreviation LF :: char where
  "LF \<equiv> CHR 0x0A"

abbreviation CR :: char where
  "CR \<equiv> CHR 0x0D"

text \<open>\<open>str.isspace\<close> on one character, for the code points below 256.\<close>

definition isspace :: "char \<Rightarrow> bool" where
  "isspace c = ((of_char c :: nat) \<in> {9, 10, 11, 12, 13, 28, 29, 30, 31, 32, 133, 160})"

text \<open>The character class \<open>[a-zA-Z0-9]\<close> of \<open>DESCRIPTION_ID_PATTERN\<close>.\<close>

definition alnum :: "char \<Rightarrow> bool" where
  "alnum c = (let n = (of_char c :: nat) in
     (97 \<le> n \<and> n \<le> 122) \<or> (65 \<le> n \<and> n \<le> 90) \<or> (48 \<le> n \<and> n \<le> 57))"

text \<open>\<open>str.strip()\<close>: whitespace is removed at both ends.\<close>

definition strip :: "string \<Rightarrow> string" where
  "strip s = rev (dropWhile isspace (rev (dropWhile isspace s)))"

text \<open>
  Reading in text mode with the default \<open>newline=None\<close> (\<open>open(path, 'r')\<close>):
  \<open>\r\n\<close> and a lone \<open>\r\<close> both arrive as \<open>\n\<close>.
\<close>

fun universal_newlines :: "string \<Rightarrow> string" where
  "universal_newlines [] = []"
| "universal_newlines [c] = [if c = CR then LF else c]"
| "universal_newlines (c # d # cs) =
     (if c = CR \<and> d = LF then LF # universal_newlines cs
      else (if c = CR then LF else c) # universal_newlines (d # cs))"

text \<open>
  Iterating over a file (and \<open>readlines()\<close>): the lines in order, each with its
  terminating \<open>\n\<close>; only the last line can lack one.
\<close>

fun readlines :: "string \<Rightarrow> string list" where
  "readlines [] = []"
| "readlines (c # cs) =
     (if c = LF then [c] # readlines cs
      else (case readlines cs of [] \<Rightarrow> [[c]] | l # ls \<Rightarrow> (c # l) # ls))"

section \<open>Tag Parser\<close>

text \<open>
  \<open>DESCRIPTION_ID_PATTERN = re.compile(r'des:(?P<des_id>[a-zA-Z0-9]+)')\<close>.
  \<open>des_id_match s\<close> is an attempt to match at the start of \<open>s\<close>: the literal
  \<open>des:\<close>, then the greedy run of the class, which must not be empty. It returns the
  group \<open>des_id\<close> and the text after the match.
\<close>

definition des_id_match :: "string \<Rightarrow> (string \<times> string) option" where
  "des_id_match s =
     (if take 4 s = ''des:'' then
        (let run = takeWhile alnum (drop 4 s) in
         if run = [] then None else Some (run, dropWhile alnum (drop 4 s)))
      else None)"

text \<open>\<open>DESCRIPTION_ID_PATTERN.search\<close>: the match at the leftmost position that has one.\<close>

fun des_id_search :: "string \<Rightarrow> string option" where
  "des_id_search [] = None"
| "des_id_search (c # cs) =
     (case des_id_match (c # cs) of
        Some (run, rest) \<Rightarrow> Some run
      | None \<Rightarrow> des_id_search cs)"

lemma des_id_match_shorter:
  "des_id_match s = Some (run, rest) \<Longrightarrow> length rest < length s"
proof -
  assume m: "des_id_match s = Some (run, rest)"
  then have t: "take 4 s = ''des:''"
    by (simp add: des_id_match_def split: if_splits)
  have "length (take 4 s) = 4"
    by (simp add: t)
  then have l: "4 \<le> length s"
    by simp
  from m have "rest = dropWhile alnum (drop 4 s)"
    by (auto simp: des_id_match_def Let_def split: if_splits)
  then have "length rest \<le> length s - 4"
    using length_dropWhile_le [of alnum "drop 4 s"] by simp
  with l show ?thesis
    by simp
qed

text \<open>
  \<open>re.sub(DESCRIPTION_ID_PATTERN.pattern, '', s)\<close>: one pass from the left, every
  match deleted, the scan resuming right after it.
\<close>

function des_id_sub :: "string \<Rightarrow> string" where
  "des_id_sub [] = []"
| "des_id_sub (c # cs) =
     (case des_id_match (c # cs) of
        Some (run, rest) \<Rightarrow> des_id_sub rest
      | None \<Rightarrow> c # des_id_sub cs)"
  by pat_completeness auto
termination
  by (relation "measure length") (auto dest: des_id_match_shorter)

record Task =
  id' :: int
  original_content :: string
  description_id :: "string option"

definition parse_task :: "int \<Rightarrow> string \<Rightarrow> Task" where
  "parse_task task_id content =
     (case des_id_search content of
        Some des_id \<Rightarrow>
          if des_id \<noteq> [] then
            \<lparr>id' = task_id, original_content = content, description_id = Some des_id\<rparr>
          else \<lparr>id' = task_id, original_content = content, description_id = None\<rparr>
      | None \<Rightarrow> \<lparr>id' = task_id, original_content = content, description_id = None\<rparr>)"

section \<open>Files\<close>

text \<open>
  What the program touches on disk: the file \<open>$TODO_FILE\<close>, its backup
  \<open>$TODO_FILE.bak\<close>, the path \<open>$TODO_DIR/descriptions\<close> (absent, a directory, or
  something else) and the regular files inside it, by name.
\<close>

datatype path_kind = Absent | Directory | Other

record fs =
  todo_file :: string
  todo_bak :: "string option"
  description_dir :: path_kind
  description_files :: "string \<rightharpoonup> string"

text \<open>
  The failures of the program. The first four are the \<open>ValueError\<close>s the program
  raises itself; the constructor stands for the message, which \<open>main\<close> prints before it
  exits with status 1. \<open>TypeError\<close> is raised by \<open>print\<close>; \<open>main\<close> does not catch it, and
  the interpreter ends with a traceback and status 1 as well.
\<close>

datatype error =
    Task_not_found int
  | No_description_found int
  | Not_a_directory
  | Not_a_file string
  | TypeError

definition exit_code :: "fs \<times> (error + 'a) \<Rightarrow> nat" where
  "exit_code r = (case snd r of Inl e \<Rightarrow> 1 | Inr v \<Rightarrow> 0)"

section \<open>Task Locator\<close>

fun get_task_loop :: "int \<Rightarrow> int \<Rightarrow> string list \<Rightarrow> Task option" where
  "get_task_loop task_id i [] = None"
| "get_task_loop task_id i (line # rest) =
     (if i = task_id - 1 then Some (parse_task task_id line)
      else get_task_loop task_id (i + 1) rest)"

definition get_task :: "fs \<Rightarrow> int \<Rightarrow> Task option" where
  "get_task s task_id =
     get_task_loop task_id 0 (readlines (universal_newlines (todo_file s)))"

section \<open>Description Store\<close>

definition get_description_file :: "fs \<Rightarrow> string \<Rightarrow> fs \<times> (error + string)" where
  "get_description_file s des_id =
     (let s1 = (if description_dir s = Absent then s\<lparr>description_dir := Directory\<rparr> else s)
      in if description_dir s1 \<noteq> Directory then (s1, Inl Not_a_directory)
         else (s1, Inr (des_id @ ''.txt'')))"

definition get_description_content :: "fs \<Rightarrow> string \<Rightarrow> fs \<times> (error + string)" where
  "get_description_content s des_id =
     (case get_description_file s des_id of
        (s1, Inl e) \<Rightarrow> (s1, Inl e)
      | (s1, Inr description_file) \<Rightarrow>
          (case description_files s1 description_file of
             None \<Rightarrow> (s1, Inl (Not_a_file description_file))
           | Some content \<Rightarrow> (s1, Inr (concat (readlines (universal_newlines content))))))"

text \<open>
  \<open>edit_description\<close> hands the description file to the editor; the result is the
  file name the editor is called with.
\<close>

definition edit_description :: "fs \<Rightarrow> int \<Rightarrow> fs \<times> (error + string)" where
  "edit_description s task_id =
     (case get_task s task_id of
        None \<Rightarrow> (s, Inl (Task_not_found task_id))
      | Some task \<Rightarrow>
          (case description_id task of
             Some des_id \<Rightarrow>
               if des_id \<noteq> [] then get_description_file s des_id
               else (s, Inl (No_description_found task_id))
           | None \<Rightarrow> (s, Inl (No_description_found task_id))))"

text \<open>\<open>show_description\<close>: the result is what \<open>print\<close> writes to standard output.\<close>

definition show_description :: "fs \<Rightarrow> int \<Rightarrow> fs \<times> (error + string)" where
  "show_description s task_id =
     (case get_task s task_id of
        None \<Rightarrow> (s, Inl (Task_not_found task_id))
      | Some task \<Rightarrow>
          (case description_id task of
             Some des_id \<Rightarrow>
               if des_id \<noteq> [] then
                 (case get_description_content s des_id of
                    (s1, Inl e) \<Rightarrow> (s1, Inl e)
                  | (s1, Inr description_full) \<Rightarrow> (s1, Inr (description_full @ [LF])))
               else (s, Inl (No_description_found task_id))
           | None \<Rightarrow> (s, Inl (No_description_found task_id))))"

section \<open>Identifiers\<close>

text \<open>
  \<open>sha256(str(getrandbits(256)).encode('utf-8')).hexdigest()[:8]\<close>. Neither the random
  generator nor the hash is code of this program: the 256-bit digest of the drawn value
  is an input. \<open>hexdigest\<close> writes it as 64 lowercase hexadecimal digits, the most
  significant first.
\<close>

definition hex_digit :: "nat \<Rightarrow> char" where
  "hex_digit n = ''0123456789abcdef'' ! n"

fun hex_digits :: "nat \<Rightarrow> 256 word \<Rightarrow> string" where
  "hex_digits 0 w = []"
| "hex_digits (Suc n) w = hex_digit (unat (drop_bit (4 * n) w AND 15)) # hex_digits n w"

definition hexdigest :: "256 word \<Rightarrow> string" where
  "hexdigest w = hex_digits 64 w"

definition new_description_id :: "256 word \<Rightarrow> string" where
  "new_description_id digest = take 8 (hexdigest digest)"

section \<open>Task Rewriter\<close>

text \<open>
  \<open>FileInput(path, inplace=True, mode="rb", backup=".bak")\<close> moves the task file to the
  backup and makes a new, empty task file standard output while the loop runs. It opens
  that file in the mode \<open>mode.replace('r', 'w')\<close> (\<open>fileinput.py\<close>), which is \<open>"wb"\<close>
  here.
\<close>

definition write_mode :: "string \<Rightarrow> string" where
  "write_mode mode = map (\<lambda>c. if c = CHR ''r'' then CHR ''w'' else c) mode"

text \<open>
  \<open>print\<close> of a \<open>str\<close> to a file of the given mode: a binary file takes bytes only,
  raises \<open>TypeError\<close> and stores nothing; a text file stores the text.
\<close>

definition print_to :: "string \<Rightarrow> string \<Rightarrow> error + string" where
  "print_to file_mode text = (if CHR ''b'' \<in> set file_mode then Inl TypeError else Inr text)"

text \<open>
  The loop over the lines, which are split at \<open>\n\<close> only and counted from 1. Each round
  prints one \<open>str\<close>: the decoded line, or for the target line the line without its tags,
  stripped, with the new tag and \<open>\n\<close>. The result is what the output file holds when the
  loop ends, and the exception that ended it, if one did.
\<close>

fun rewrite_loop ::
  "string \<Rightarrow> int \<Rightarrow> string \<Rightarrow> int \<Rightarrow> string list \<Rightarrow> string \<times> error option" where
  "rewrite_loop out_mode task_id new_id index [] = ([], None)"
| "rewrite_loop out_mode task_id new_id index (line # rest) =
     (case print_to out_mode
             (if index = task_id then strip (des_id_sub line) @ '' des:'' @ new_id @ [LF]
              else line) of
        Inl e \<Rightarrow> ([], Some e)
      | Inr text \<Rightarrow>
          (case rewrite_loop out_mode task_id new_id (index + 1) rest of
             (written, raised) \<Rightarrow> (text @ written, raised)))"

text \<open>
  The \<open>with FileInput(...)\<close> block of \<open>add_description\<close>: the old file becomes the
  backup, and the task file holds what was printed, also when the loop is left by an
  exception.
\<close>

definition rewrite_todo :: "fs \<Rightarrow> int \<Rightarrow> string \<Rightarrow> fs \<times> error option" where
  "rewrite_todo s task_id new_id =
     (case rewrite_loop (write_mode ''rb'') task_id new_id 1 (readlines (todo_file s)) of
        (written, raised) \<Rightarrow>
          (s\<lparr>todo_bak := Some (todo_file s), todo_file := written\<rparr>, raised))"

definition add_description :: "256 word \<Rightarrow> fs \<Rightarrow> int \<Rightarrow> string \<Rightarrow> fs \<times> (error + unit)" where
  "add_description digest s task_id description =
     (case get_task s task_id of
        None \<Rightarrow> (s, Inl (Task_not_found task_id))
      | Some task \<Rightarrow>
          if description_dir s \<noteq> Directory then (s, Inl Not_a_directory)
          else
            (let new_id = new_description_id digest;
                 description_file = new_id @ ''.txt'';
                 s1 = s\<lparr>description_files :=
                         (description_files s)(description_file \<mapsto> description)\<rparr>
             in (case rewrite_todo s1 task_id new_id of
                   (s2, Some e) \<Rightarrow> (s2, Inl e)
                 | (s2, None) \<Rightarrow> (s2, Inr ()))))"

section \<open>Command Dispatcher\<close>

text \<open>
  \<open>optionally_from_stdin\<close>, the argument type of \<open>description\<close>; \<open>stdin\<close> is the text
  that reading standard input to its end returns.
\<close>

definition optionally_from_stdin :: "string \<Rightarrow> string \<Rightarrow> string" where
  "optionally_from_stdin stdin input =
     (if input = ''-'' then strip (concat (readlines stdin)) else input)"

section \<open>Properties of the Tag Parser\<close>

lemma des_id_match_SomeD:
  assumes "des_id_match s = Some (run, rest)"
  shows "s = ''des:'' @ run @ rest" and "run \<noteq> []" and "list_all alnum run"
    and "rest = [] \<or> \<not> alnum (hd rest)"
proof -
  from assms have t: "take 4 s = ''des:''"
    and r: "run = takeWhile alnum (drop 4 s)"
    and d: "rest = dropWhile alnum (drop 4 s)"
    and n: "run \<noteq> []"
    by (auto simp: des_id_match_def Let_def split: if_splits)
  have "s = take 4 s @ drop 4 s"
    by simp
  also have "drop 4 s = run @ rest"
    by (simp add: r d)
  finally show "s = ''des:'' @ run @ rest"
    by (simp add: t)
  show "run \<noteq> []"
    by (rule n)
  show "list_all alnum run"
    unfolding r list_all_iff by (auto dest: set_takeWhileD)
  show "rest = [] \<or> \<not> alnum (hd rest)"
    unfolding d using hd_dropWhile [of alnum "drop 4 s"] by blast
qed

lemma des_id_match_tag:
  "alnum c \<Longrightarrow> des_id_match (''des:'' @ c # post) \<noteq> None"
  by (simp add: des_id_match_def)

text \<open>No match is found only when no position carries \<open>des:\<close> and a character of the class.\<close>

lemma des_id_search_None:
  "des_id_search s = None \<Longrightarrow> s \<noteq> pre @ ''des:'' @ c # post \<or> \<not> alnum c"
proof (induction s arbitrary: pre)
  case Nil
  then show ?case by simp
next
  case (Cons x xs)
  from Cons.prems have m: "des_id_match (x # xs) = None" and s: "des_id_search xs = None"
    by (auto split: option.splits)
  show ?case
  proof (cases pre)
    case Nil
    with m des_id_match_tag [of c post] show ?thesis
      by auto
  next
    case (Cons y ys)
    with Cons.IH [OF s, of ys] show ?thesis
      by auto
  qed
qed

text \<open>A match found is the whole run of the class after the leftmost \<open>des:\<close> that has one.\<close>

lemma des_id_search_Some:
  "des_id_search s = Some i \<Longrightarrow>
     \<exists>pre post. s = pre @ ''des:'' @ i @ post \<and> i \<noteq> [] \<and> list_all alnum i \<and>
       (post = [] \<or> \<not> alnum (hd post)) \<and>
       (\<forall>pre' c post'. s = pre' @ ''des:'' @ c # post' \<and> alnum c \<longrightarrow> length pre \<le> length pre')"
proof (induction s)
  case Nil
  then show ?case by simp
next
  case (Cons x xs)
  show ?case
  proof (cases "des_id_match (x # xs)")
    case None
    with Cons.prems have "des_id_search xs = Some i"
      by simp
    from Cons.IH [OF this] obtain pre post where
      e: "xs = pre @ ''des:'' @ i @ post" and p: "i \<noteq> []" "list_all alnum i"
        "post = [] \<or> \<not> alnum (hd post)"
      and least: "\<And>pre' c post'. xs = pre' @ ''des:'' @ c # post' \<Longrightarrow> alnum c \<Longrightarrow>
        length pre \<le> length pre'"
      by blast
    have "length (x # pre) \<le> length pre'"
      if o: "x # xs = pre' @ ''des:'' @ c # post'" and a: "alnum c" for pre' c post'
    proof (cases pre')
      case Nil
      with o a None des_id_match_tag [of c post'] show ?thesis
        by auto
    next
      case (Cons y ys)
      with o have "xs = ys @ ''des:'' @ c # post'"
        by simp
      from least [OF this a] Cons show ?thesis
        by simp
    qed
    moreover have "x # xs = (x # pre) @ ''des:'' @ i @ post"
      by (simp add: e)
    ultimately show ?thesis
      using p by blast
  next
    case (Some m)
    obtain run rest where m: "m = (run, rest)"
      by (cases m)
    with Some Cons.prems have i: "run = i"
      by simp
    from des_id_match_SomeD [OF Some [unfolded m i]]
    have "x # xs = [] @ ''des:'' @ i @ rest" "i \<noteq> []" "list_all alnum i"
      "rest = [] \<or> \<not> alnum (hd rest)"
      by simp_all
    then show ?thesis
      by (metis le0 list.size(3))
  qed
qed

lemma parse_task_description_id [simp]:
  "description_id (parse_task task_id line) = des_id_search line"
  using des_id_search_Some [of line "[]"]
  by (auto simp: parse_task_def split: option.splits)

lemma parse_task_fields [simp]:
  "id' (parse_task task_id line) = task_id"
  "original_content (parse_task task_id line) = line"
  by (simp_all add: parse_task_def split: option.splits)

text \<open>
  Claim C4. The parser returns an identifier exactly for the lines that hold \<open>des:\<close>
  directly followed by a character of \<open>[a-zA-Z0-9]\<close>. The identifier returned is the
  full run of such characters (not empty, and ended by the end of the line or by a
  character outside the class) after the leftmost such \<open>des:\<close>. A \<open>des:\<close> with no
  such character after it therefore yields nothing.
\<close>

theorem tag_parser:
  "(description_id (parse_task task_id line) \<noteq> None \<longleftrightarrow>
      (\<exists>pre c post. line = pre @ ''des:'' @ c # post \<and> alnum c)) \<and>
   (\<forall>i. description_id (parse_task task_id line) = Some i \<longrightarrow>
      (\<exists>pre post. line = pre @ ''des:'' @ i @ post \<and> i \<noteq> [] \<and> list_all alnum i \<and>
         (post = [] \<or> \<not> alnum (hd post)) \<and>
         (\<forall>pre' c post'. line = pre' @ ''des:'' @ c # post' \<and> alnum c \<longrightarrow>
            length pre \<le> length pre')))"
proof (intro conjI allI impI iffI)
  assume "description_id (parse_task task_id line) \<noteq> None"
  then obtain i where "des_id_search line = Some i"
    by auto
  from des_id_search_Some [OF this] obtain pre post where
    "line = pre @ ''des:'' @ i @ post" "i \<noteq> []" "list_all alnum i"
    by blast
  then have "line = pre @ ''des:'' @ hd i # (tl i @ post) \<and> alnum (hd i)"
    by (cases i) simp_all
  then show "\<exists>pre c post. line = pre @ ''des:'' @ c # post \<and> alnum c"
    by blast
next
  assume "\<exists>pre c post. line = pre @ ''des:'' @ c # post \<and> alnum c"
  then show "description_id (parse_task task_id line) \<noteq> None"
    using des_id_search_None [of line] by auto
next
  fix i
  assume "description_id (parse_task task_id line) = Some i"
  then show "\<exists>pre post. line = pre @ ''des:'' @ i @ post \<and> i \<noteq> [] \<and> list_all alnum i \<and>
         (post = [] \<or> \<not> alnum (hd post)) \<and>
         (\<forall>pre' c post'. line = pre' @ ''des:'' @ c # post' \<and> alnum c \<longrightarrow>
            length pre \<le> length pre')"
    using des_id_search_Some [of line i] by simp
qed

text \<open>
  The theorem at two lines: one with the tag \<open>des:ABC123\<close> between other words, one
  where \<open>des:\<close> is followed by a blank.
\<close>

theorem tag_parser_witness:
  "description_id (parse_task 2 ''buy milk des:ABC123 today'') = Some ''ABC123'' \<and>
   (\<exists>pre post. ''buy milk des:ABC123 today'' = pre @ ''des:'' @ ''ABC123'' @ post) \<and>
   description_id (parse_task 2 ''buy milk des: today'') = None \<and>
   \<not> (\<exists>pre c post. ''buy milk des: today'' = pre @ ''des:'' @ c # post \<and> alnum c)"
proof -
  have a: "description_id (parse_task 2 ''buy milk des:ABC123 today'') = Some ''ABC123''"
    by (simp add: des_id_match_def alnum_def)
  have b: "description_id (parse_task 2 ''buy milk des: today'') = None"
    by (simp add: des_id_match_def alnum_def)
  from tag_parser [of 2 "''buy milk des:ABC123 today''"] a
  have "\<exists>pre post. ''buy milk des:ABC123 today'' = pre @ ''des:'' @ ''ABC123'' @ post"
    by blast
  moreover from tag_parser [of 2 "''buy milk des: today''"] b
  have "\<not> (\<exists>pre c post. ''buy milk des: today'' = pre @ ''des:'' @ c # post \<and> alnum c)"
    by simp
  ultimately show ?thesis
    using a b by blast
qed

section \<open>Properties of line reading\<close>

lemma readlines_Nil_iff [simp]: "readlines s = [] \<longleftrightarrow> s = []"
  by (cases s) (auto split: list.splits)

lemma concat_readlines [simp]: "concat (readlines s) = s"
  by (induction s) (auto split: list.splits)

lemma readlines_nonempty: "l \<in> set (readlines s) \<Longrightarrow> l \<noteq> []"
  by (induction s arbitrary: l) (auto split: list.splits if_splits)

lemma readlines_LF_last: "l \<in> set (readlines s) \<Longrightarrow> LF \<notin> set (butlast l)"
  by (induction s arbitrary: l) (auto split: list.splits if_splits dest: readlines_nonempty)

lemma readlines_terminated:
  "Suc i < length (readlines s) \<Longrightarrow> last (readlines s ! i) = LF"
proof (induction s arbitrary: i)
  case Nil
  then show ?case by simp
next
  case (Cons c cs)
  show ?case
  proof (cases "c = LF")
    case True
    with Cons show ?thesis
      by (cases i) auto
  next
    case False
    then obtain l ls where r: "readlines cs = l # ls"
      using Cons.prems by (cases "readlines cs") auto
    have n: "l \<noteq> []"
      using readlines_nonempty [of l cs] r by simp
    show ?thesis
    proof (cases i)
      case 0
      from Cons.prems False r have "Suc 0 < length (readlines cs)"
        by (simp add: 0)
      from Cons.IH [OF this] show ?thesis
        using False r n by (simp add: 0)
    next
      case (Suc j)
      from Cons.prems False r have "Suc (Suc j) < length (readlines cs)"
        by (simp add: Suc)
      from Cons.IH [OF this] show ?thesis
        using False r by (simp add: Suc)
    qed
  qed
qed

lemma last_concat_last:
  "xs \<noteq> [] \<Longrightarrow> last xs \<noteq> [] \<Longrightarrow> last (concat xs) = last (last xs)"
proof (induction xs)
  case Nil
  then show ?case by simp
next
  case (Cons x xs)
  show ?case
  proof (cases "xs = []")
    case True
    then show ?thesis by simp
  next
    case False
    with Cons.prems have l: "last xs \<noteq> []"
      by simp
    from False have "last xs \<in> set xs"
      by simp
    with l have "concat xs \<noteq> []"
      by auto
    with Cons.IH [OF False l] False show ?thesis
      by simp
  qed
qed

lemma last_last_readlines: "s \<noteq> [] \<Longrightarrow> last (last (readlines s)) = last s"
proof -
  assume n: "s \<noteq> []"
  then have r: "readlines s \<noteq> []"
    by simp
  then have "last (readlines s) \<in> set (readlines s)"
    by simp
  then have "last (readlines s) \<noteq> []"
    by (rule readlines_nonempty)
  with r have "last (concat (readlines s)) = last (last (readlines s))"
    by (rule last_concat_last)
  then show ?thesis
    by simp
qed

lemma universal_newlines_no_CR: "CR \<notin> set (universal_newlines s)"
  by (induction s rule: universal_newlines.induct) auto

lemma universal_newlines_id: "CR \<notin> set s \<Longrightarrow> universal_newlines s = s"
  by (induction s rule: universal_newlines.induct) auto

lemma get_task_loop_eq:
  "get_task_loop t i ls =
     (if i \<le> t - 1 \<and> t - 1 < i + int (length ls)
      then Some (parse_task t (ls ! nat (t - 1 - i))) else None)"
proof (induction ls arbitrary: i)
  case Nil
  then show ?case by simp
next
  case (Cons l ls)
  show ?case
  proof (cases "i = t - 1")
    case True
    then show ?thesis by simp
  next
    case False
    have "nat (t - 1 - i) = Suc (nat (t - 1 - (i + 1)))" if "i \<le> t - 1"
      using that False by simp
    with False Cons.IH [of "i + 1"] show ?thesis
      by auto
  qed
qed

lemma get_task_eq:
  "get_task s t =
     (if 1 \<le> t \<and> t \<le> int (length (readlines (universal_newlines (todo_file s))))
      then Some (parse_task t (readlines (universal_newlines (todo_file s)) ! nat (t - 1)))
      else None)"
  by (simp add: get_task_def get_task_loop_eq)

section \<open>Properties of the Task Locator\<close>

lemma readlines_subset: "l \<in> set (readlines s) \<Longrightarrow> set l \<subseteq> set s"
proof -
  assume "l \<in> set (readlines s)"
  then have "set l \<subseteq> set (concat (readlines s))"
    by (auto simp del: concat_readlines)
  then show ?thesis
    by simp
qed

text \<open>
  Claim C5 as stated fails. \<open>get_task\<close> hands the line to \<open>parse_task\<close> as the file
  iteration yields it, and that includes the line terminator: on a file of two
  terminated lines, the record for task 2 holds the text with its final \<open>\n\<close>, not the
  text without it.
\<close>

theorem get_task_raw_text_counterexample:
  "map_option original_content
     (get_task \<lparr>todo_file = ''buy milk\<newline>call bob des:ab12cd34\<newline>'', todo_bak = None,
                description_dir = Directory, description_files = Map.empty\<rparr> 2)
     = Some ''call bob des:ab12cd34\<newline>'' \<and>
   map_option original_content
     (get_task \<lparr>todo_file = ''buy milk\<newline>call bob des:ab12cd34\<newline>'', todo_bak = None,
                description_dir = Directory, description_files = Map.empty\<rparr> 2)
     \<noteq> Some ''call bob des:ab12cd34''"
  by (simp add: get_task_def)

text \<open>
  Claim C5, amended. For every task file and every 1-based index that names a line, the
  record returned by \<open>get_task\<close> carries the index, the identifier parsed from the line
  and, as raw text, the whole line as text-mode reading delivers it: not empty, any tag
  included, free of \<open>\r\<close>, with no \<open>\n\<close> before its last character, and ending with the
  terminator \<open>\n\<close> exactly when the line is not the last one or the text read ends with
  a terminator.
\<close>

theorem get_task_raw_text:
  assumes "1 \<le> t" and "t \<le> int (length (readlines (universal_newlines (todo_file s))))"
  shows "\<exists>task. get_task s t = Some task \<and> id' task = t \<and>
           original_content task = readlines (universal_newlines (todo_file s)) ! nat (t - 1) \<and>
           description_id task = des_id_search (original_content task) \<and>
           original_content task \<noteq> [] \<and>
           LF \<notin> set (butlast (original_content task)) \<and>
           CR \<notin> set (original_content task) \<and>
           (last (original_content task) = LF \<longleftrightarrow>
              t < int (length (readlines (universal_newlines (todo_file s)))) \<or>
              last (universal_newlines (todo_file s)) = LF)"
proof -
  let ?text = "universal_newlines (todo_file s)"
  let ?lines = "readlines ?text"
  let ?l = "?lines ! nat (t - 1)"
  from assms have i: "nat (t - 1) < length ?lines"
    by simp
  then have m: "?l \<in> set ?lines"
    by simp
  have g: "get_task s t = Some (parse_task t ?l)"
    using assms by (simp add: get_task_eq)
  have n: "?l \<noteq> []"
    using m by (rule readlines_nonempty)
  have b: "LF \<notin> set (butlast ?l)"
    using m by (rule readlines_LF_last)
  have "set ?l \<subseteq> set ?text"
    using m by (rule readlines_subset)
  then have c: "CR \<notin> set ?l"
    using universal_newlines_no_CR [of "todo_file s"] by auto
  have e: "last ?l = LF \<longleftrightarrow> t < int (length ?lines) \<or> last ?text = LF"
  proof (cases "t < int (length ?lines)")
    case True
    with assms have "Suc (nat (t - 1)) < length ?lines"
      by simp
    from readlines_terminated [OF this] True show ?thesis
      by simp
  next
    case False
    with assms have t: "nat (t - 1) = length ?lines - 1" and ne: "?lines \<noteq> []"
      by auto
    from ne have "?text \<noteq> []"
      by simp
    from last_last_readlines [OF this] have "last ?l = last ?text"
      using ne by (simp add: t last_conv_nth)
    with False show ?thesis
      by simp
  qed
  show ?thesis
    using g n b c e by simp
qed

text \<open>The amended claim at task 1 of a two-line file whose last line is not terminated.\<close>

theorem get_task_raw_text_witness:
  "get_task \<lparr>todo_file = ''buy milk\<newline>call bob des:ab12cd34'', todo_bak = None,
             description_dir = Directory, description_files = Map.empty\<rparr> 1 \<noteq> None \<and>
   original_content
     (the (get_task \<lparr>todo_file = ''buy milk\<newline>call bob des:ab12cd34'', todo_bak = None,
                     description_dir = Directory, description_files = Map.empty\<rparr> 1))
     = ''buy milk\<newline>''"
  using get_task_raw_text [of 1 "\<lparr>todo_file = ''buy milk\<newline>call bob des:ab12cd34'', todo_bak = None,
                description_dir = Directory, description_files = Map.empty\<rparr>"]
  by auto

text \<open>
  Claim C6. For a 1-based index, \<open>get_task\<close> returns a record when the index names a
  line and \<open>None\<close> exactly when the index exceeds the number of lines. Exactly then
  \<open>show_description\<close> raises the error "task not found", which leaves the files as
  they are and ends the program with exit status 1.
\<close>

theorem get_task_not_found:
  assumes "1 \<le> t"
  shows "(get_task s t = None \<longleftrightarrow>
            int (length (readlines (universal_newlines (todo_file s)))) < t) \<and>
         (snd (show_description s t) = Inl (Task_not_found t) \<longleftrightarrow>
            int (length (readlines (universal_newlines (todo_file s)))) < t) \<and>
         (get_task s t = None \<longrightarrow>
            show_description s t = (s, Inl (Task_not_found t)) \<and>
            exit_code (show_description s t) = 1)"
proof -
  have "snd (show_description s t) \<noteq> Inl (Task_not_found t)" if "get_task s t \<noteq> None"
    using that
    by (auto simp: show_description_def get_description_content_def get_description_file_def
        Let_def split: option.splits prod.splits sum.splits)
  moreover have "show_description s t = (s, Inl (Task_not_found t))" if "get_task s t = None"
    using that by (simp add: show_description_def)
  moreover have "get_task s t = None \<longleftrightarrow>
      int (length (readlines (universal_newlines (todo_file s)))) < t"
    using assms by (simp add: get_task_eq)
  ultimately show ?thesis
    by (auto simp: exit_code_def)
qed

text \<open>The scenario \<open>show 5\<close> on a file of three lines, beside index 3 of the same file.\<close>

theorem get_task_not_found_witness:
  "get_task \<lparr>todo_file = ''one\<newline>two\<newline>three\<newline>'', todo_bak = None,
             description_dir = Directory, description_files = Map.empty\<rparr> 5 = None \<and>
   snd (show_description \<lparr>todo_file = ''one\<newline>two\<newline>three\<newline>'', todo_bak = None,
             description_dir = Directory, description_files = Map.empty\<rparr> 5) = Inl (Task_not_found 5) \<and>
   exit_code (show_description \<lparr>todo_file = ''one\<newline>two\<newline>three\<newline>'', todo_bak = None,
             description_dir = Directory, description_files = Map.empty\<rparr> 5) = 1 \<and>
   get_task \<lparr>todo_file = ''one\<newline>two\<newline>three\<newline>'', todo_bak = None,
             description_dir = Directory, description_files = Map.empty\<rparr> 3 \<noteq> None"
  using get_task_not_found [of 5 "\<lparr>todo_file = ''one\<newline>two\<newline>three\<newline>'', todo_bak = None,
             description_dir = Directory, description_files = Map.empty\<rparr>"]
    get_task_not_found [of 3 "\<lparr>todo_file = ''one\<newline>two\<newline>three\<newline>'', todo_bak = None,
             description_dir = Directory, description_files = Map.empty\<rparr>"]
  by (simp add: exit_code_def)

text \<open>
  Claim C10. For an index that is zero or negative the lookup returns \<open>None\<close>, the outcome
  of every index past the end of the file, and \<open>add\<close>, \<open>show\<close> and \<open>edit\<close> all fail with
  the error "task not found", leaving the files as they were.
\<close>

theorem non_positive_task_id:
  assumes "t \<le> 0"
  shows "get_task s t = None \<and>
         add_description digest s t description = (s, Inl (Task_not_found t)) \<and>
         show_description s t = (s, Inl (Task_not_found t)) \<and>
         edit_description s t = (s, Inl (Task_not_found t)) \<and>
         exit_code (show_description s t) = 1 \<and>
         (\<forall>u. int (length (readlines (universal_newlines (todo_file s)))) < u \<longrightarrow>
            get_task s u = get_task s t \<and>
            snd (show_description s u) = Inl (Task_not_found u))"
  using assms
  by (auto simp: get_task_eq show_description_def edit_description_def add_description_def
      exit_code_def)

text \<open>The indices 0 and -1 on a file of two lines.\<close>

theorem non_positive_task_id_witness:
  "get_task \<lparr>todo_file = ''one\<newline>two\<newline>'', todo_bak = None,
             description_dir = Directory, description_files = Map.empty\<rparr> 0 = None \<and>
   snd (show_description \<lparr>todo_file = ''one\<newline>two\<newline>'', todo_bak = None,
             description_dir = Directory, description_files = Map.empty\<rparr> (- 1)) = Inl (Task_not_found (- 1)) \<and>
   snd (add_description 0 \<lparr>todo_file = ''one\<newline>two\<newline>'', todo_bak = None,
             description_dir = Directory, description_files = Map.empty\<rparr> 0 ''text'') = Inl (Task_not_found 0)"
  using non_positive_task_id [of 0 "\<lparr>todo_file = ''one\<newline>two\<newline>'', todo_bak = None,
             description_dir = Directory, description_files = Map.empty\<rparr>" 0 "''text''"]
    non_positive_task_id [of "- 1" "\<lparr>todo_file = ''one\<newline>two\<newline>'', todo_bak = None,
             description_dir = Directory, description_files = Map.empty\<rparr>"]
  by simp

section \<open>Properties of identifiers\<close>

lemma length_hex_digits [simp]: "length (hex_digits n w) = n"
  by (induction n) simp_all

lemma hex_digit_in: "n < 16 \<Longrightarrow> hex_digit n \<in> set ''0123456789abcdef''"
proof -
  assume "n < 16"
  then have "n < length ''0123456789abcdef''"
    by simp
  then have "''0123456789abcdef'' ! n \<in> set ''0123456789abcdef''"
    by (rule nth_mem)
  then show ?thesis
    by (simp only: hex_digit_def)
qed

lemma nibble_bound: "unat ((x :: 256 word) AND 15) < 16"
proof -
  have "unat (x AND 15) \<le> unat (15 :: 256 word)"
    by (rule word_and_le1 [THEN word_le_nat_alt [THEN iffD1]])
  then show ?thesis by simp
qed

lemma set_hex_digits: "set (hex_digits n w) \<subseteq> set ''0123456789abcdef''"
proof -
  define H where "H = set ''0123456789abcdef''"
  have "set (hex_digits n w) \<subseteq> H"
  proof (induction n)
    case 0
    then show ?case by simp
  next
    case (Suc n)
    have "hex_digit (unat (drop_bit (4 * n) w AND 15)) \<in> H"
      unfolding H_def by (rule hex_digit_in) (rule nibble_bound)
    with Suc show ?case
      by simp
  qed
  then show ?thesis
    by (simp only: H_def)
qed

lemma hex_char_facts:
  "c \<in> set ''0123456789abcdef'' \<Longrightarrow> alnum c \<and> \<not> isspace c \<and> c \<noteq> LF \<and> c \<noteq> CR"
  by (auto simp: alnum_def isspace_def)

lemma take_hex_digits:
  "take m (hex_digits (m + n) w) =
     map (\<lambda>k. hex_digit (unat (drop_bit (4 * k) w AND 15))) (rev [n..<m + n])"
  by (induction m) simp_all

lemma new_description_id_digits:
  "new_description_id w =
     map (\<lambda>k. hex_digit (unat (drop_bit (4 * k) w AND 15))) [63, 62, 61, 60, 59, 58, 57, 56]"
proof -
  have "rev [56..<8 + 56] = [63, 62, 61, 60, 59, 58, 57, 56 :: nat]"
    by (simp add: upt_rec)
  with take_hex_digits [of 8 56 w] show ?thesis
    by (simp add: new_description_id_def hexdigest_def)
qed

text \<open>A digest that starts with the bytes 1a 2b 3c 4d, for the examples below.\<close>

lemma new_description_id_example:
  "new_description_id 0x1a2b3c4d00000000000000000000000000000000000000000000000000000000
     = ''1a2b3c4d''"
  by (simp add: new_description_id_digits hex_digit_def)

text \<open>
  Claim C9. Whatever value is drawn, and so whatever its digest, the identifier is the
  first 8 of the 64 characters of the hexadecimal digest: its length is 8 and each of
  its characters is a digit or a lowercase letter from \<open>a\<close> to \<open>f\<close>.
\<close>

theorem identifier_format:
  "new_description_id digest = take 8 (hexdigest digest) \<and>
   length (hexdigest digest) = 64 \<and>
   length (new_description_id digest) = 8 \<and>
   set (new_description_id digest) \<subseteq> set ''0123456789abcdef''"
proof -
  have "set (take 8 (hexdigest digest)) \<subseteq> set (hexdigest digest)"
    by (rule set_take_subset)
  also have "\<dots> \<subseteq> set ''0123456789abcdef''"
    unfolding hexdigest_def by (rule set_hex_digits)
  finally show ?thesis
    by (simp add: new_description_id_def hexdigest_def)
qed

section \<open>Properties of \<open>strip\<close> and of the description argument\<close>

lemma strip_decomp:
  "\<exists>pre post. s = pre @ strip s @ post \<and> list_all isspace pre \<and> list_all isspace post"
proof -
  let ?m = "dropWhile isspace s"
  have "s = takeWhile isspace s @ ?m"
    by simp
  moreover have "strip s @ rev (takeWhile isspace (rev ?m)) =
      rev (takeWhile isspace (rev ?m) @ dropWhile isspace (rev ?m))"
    by (simp only: strip_def rev_append)
  then have "?m = strip s @ rev (takeWhile isspace (rev ?m))"
    by (simp only: takeWhile_dropWhile_id rev_rev_ident)
  moreover have "list_all isspace (takeWhile isspace s)"
    by (auto simp: list_all_iff dest: set_takeWhileD)
  moreover have "list_all isspace (rev (takeWhile isspace (rev ?m)))"
    by (auto simp: list_all_iff dest: set_takeWhileD)
  ultimately show ?thesis
    by metis
qed

lemma strip_ends:
  assumes "strip s \<noteq> []"
  shows "\<not> isspace (hd (strip s))" and "\<not> isspace (last (strip s))"
proof -
  let ?m = "dropWhile isspace s"
  let ?r = "dropWhile isspace (rev ?m)"
  from assms have r: "?r \<noteq> []"
    by (simp add: strip_def)
  have m: "?m \<noteq> []"
  proof
    assume a: "?m = []"
    have "?r = []"
      unfolding a by simp
    with r show False
      by simp
  qed
  have "last (strip s) = hd ?r"
    using r by (simp add: strip_def last_rev)
  then show "\<not> isspace (last (strip s))"
    using hd_dropWhile [OF r] by simp
  have "rev ?m = takeWhile isspace (rev ?m) @ ?r"
    by simp
  then have "last (rev ?m) = last ?r"
    using r by (metis last_appendR)
  then have "hd ?m = last ?r"
    using m by (simp add: last_rev)
  then have "hd (strip s) = hd ?m"
    using r by (simp add: strip_def hd_rev)
  then show "\<not> isspace (hd (strip s))"
    using hd_dropWhile [OF m] by simp
qed

lemma set_strip: "set (strip s) \<subseteq> set s"
proof
  fix x
  assume "x \<in> set (strip s)"
  then have "x \<in> set (dropWhile isspace (rev (dropWhile isspace s)))"
    by (simp add: strip_def)
  then have "x \<in> set (rev (dropWhile isspace s))"
    by (rule set_dropWhileD)
  then have "x \<in> set (dropWhile isspace s)"
    by simp
  then show "x \<in> set s"
    by (rule set_dropWhileD)
qed

text \<open>
  Claim C8 as stated fails. The text read from standard input loses its whitespace at
  the front as well as at the end: an indented first line does not keep its
  indentation.
\<close>

theorem stdin_description_counterexample:
  "optionally_from_stdin ''  see the list\<newline>'' ''-'' = ''see the list'' \<and>
   optionally_from_stdin ''  see the list\<newline>'' ''-'' \<noteq> ''  see the list''"
  by (simp add: optionally_from_stdin_def strip_def isspace_def)

text \<open>
  Claim C8, amended. If the description argument is the single character \<open>-\<close>, the
  description is the whole text of standard input with the whitespace at both ends
  removed: what is cut off in front and behind is whitespace only, and what remains
  neither starts nor ends with whitespace. Any other argument is the description
  unchanged.
\<close>

theorem stdin_description:
  "(input = ''-'' \<longrightarrow>
      optionally_from_stdin stdin input = strip stdin \<and>
      (\<exists>pre post. stdin = pre @ optionally_from_stdin stdin input @ post \<and>
         list_all isspace pre \<and> list_all isspace post) \<and>
      (optionally_from_stdin stdin input \<noteq> [] \<longrightarrow>
         \<not> isspace (hd (optionally_from_stdin stdin input)) \<and>
         \<not> isspace (last (optionally_from_stdin stdin input)))) \<and>
   (input \<noteq> ''-'' \<longrightarrow> optionally_from_stdin stdin input = input)"
proof -
  have "optionally_from_stdin stdin ''-'' = strip stdin"
    by (simp add: optionally_from_stdin_def)
  then show ?thesis
    using strip_decomp [of stdin] strip_ends [of stdin]
    by (auto simp: optionally_from_stdin_def)
qed

text \<open>
  The scenario \<open>add 1 -\<close> with three lines on standard input, and a literal argument
  that ends with a blank.
\<close>

theorem stdin_description_witness:
  "optionally_from_stdin ''multi\<newline>line\<newline>text\<newline>'' ''-'' = ''multi\<newline>line\<newline>text'' \<and>
   optionally_from_stdin ''multi\<newline>line\<newline>text\<newline>'' ''buy milk '' = ''buy milk ''"
proof -
  have "strip ''multi\<newline>line\<newline>text\<newline>'' = ''multi\<newline>line\<newline>text''"
    by (simp add: strip_def isspace_def)
  then show ?thesis
    using stdin_description [of "''-''" "''multi\<newline>line\<newline>text\<newline>''"]
      stdin_description [of "''buy milk ''" "''multi\<newline>line\<newline>text\<newline>''"]
    by simp
qed

section \<open>Properties of the Task Rewriter\<close>

text \<open>
  The output file of the rewrite is binary, so the first \<open>print\<close> of the loop raises
  \<open>TypeError\<close>, whichever line it prints, and nothing reaches the new task file.
\<close>

lemma write_mode_rb: "write_mode ''rb'' = ''wb''"
  by (simp add: write_mode_def)

lemma rewrite_loop_binary:
  "CHR ''b'' \<in> set out_mode \<Longrightarrow> ls \<noteq> [] \<Longrightarrow>
     rewrite_loop out_mode t new_id i ls = ([], Some TypeError)"
  by (cases ls) (simp_all add: print_to_def)

lemma rewrite_todo_raises:
  "todo_file s \<noteq> [] \<Longrightarrow>
     rewrite_todo s t new_id =
       (s\<lparr>todo_bak := Some (todo_file s), todo_file := []\<rparr>, Some TypeError)"
  by (simp add: rewrite_todo_def write_mode_rb rewrite_loop_binary)

text \<open>
  \<open>add_description\<close> comes to the rewrite only after \<open>get_task\<close> has found the task, so
  the file has a line and the loop a first round: the description file is written, the
  old task file is the backup, the task file is empty, and \<open>TypeError\<close> ends the program.
\<close>

lemma get_task_todo_file: "get_task s t \<noteq> None \<Longrightarrow> todo_file s \<noteq> []"
  by (auto simp: get_task_def)

lemma add_description_raises:
  assumes "get_task s t \<noteq> None" and "description_dir s = Directory"
  shows "add_description digest s t d =
           (s\<lparr>description_files :=
                 (description_files s)(new_description_id digest @ ''.txt'' \<mapsto> d),
               todo_bak := Some (todo_file s), todo_file := []\<rparr>,
            Inl TypeError)"
proof -
  from assms(1) have "todo_file s \<noteq> []"
    by (rule get_task_todo_file)
  then have "rewrite_todo
      (s\<lparr>description_files :=
           (description_files s)(new_description_id digest @ ''.txt'' \<mapsto> d)\<rparr>)
      t (new_description_id digest) =
    (s\<lparr>description_files :=
          (description_files s)(new_description_id digest @ ''.txt'' \<mapsto> d),
        todo_bak := Some (todo_file s), todo_file := []\<rparr>, Some TypeError)"
    by (simp add: rewrite_todo_raises)
  with assms show ?thesis
    by (auto simp: add_description_def Let_def)
qed

lemma add_description_never_succeeds: "snd (add_description digest s t d) \<noteq> Inr ()"
proof (cases "get_task s t = None \<or> description_dir s \<noteq> Directory")
  case True
  then show ?thesis
    by (auto simp: add_description_def split: option.splits)
next
  case False
  with add_description_raises [of s t digest d] show ?thesis
    by simp
qed

text \<open>
  Claim C3 at \<open>add 2\<close> on a file of three lines. The claim asks for three lines after
  the rewrite, the first and third as they were. The rewrite raises \<open>TypeError\<close> at its
  first \<open>print\<close>, that of line 1, and leaves a task file without lines; the three lines
  are in the backup only.
\<close>

theorem rewrite_frame_fails:
  "add_description 0x1a2b3c4d00000000000000000000000000000000000000000000000000000000
      \<lparr>todo_file = ''pay rent\<newline>buy milk\<newline>call bob\<newline>'', todo_bak = None,
        description_dir = Directory, description_files = Map.empty\<rparr> 2 ''two litres''
     = (\<lparr>todo_file = [], todo_bak = Some ''pay rent\<newline>buy milk\<newline>call bob\<newline>'',
          description_dir = Directory,
          description_files = [''1a2b3c4d.txt'' \<mapsto> ''two litres'']\<rparr>,
        Inl TypeError) \<and>
   length (readlines ''pay rent\<newline>buy milk\<newline>call bob\<newline>'') = 3 \<and>
   length (readlines []) = 0"
  by (simp add: add_description_def get_task_def rewrite_todo_def write_mode_def print_to_def
      new_description_id_example)

text \<open>
  Claim C2 at \<open>add 2 "buy milk"\<close> on a file of three lines whose second line carries an
  older tag. The claim asks for the second line \<open>buy milk des:1a2b3c4d\<close>. The new
  description file is written and the old one kept, but the loop raises \<open>TypeError\<close>
  before it prints any line: the task file is left empty and has no task 2.
\<close>

theorem rewrite_target_line_fails:
  "add_description 0x1a2b3c4d00000000000000000000000000000000000000000000000000000000
      \<lparr>todo_file = ''pay rent\<newline>buy milk des:0LD1d\<newline>call bob\<newline>'', todo_bak = None,
        description_dir = Directory, description_files = [''0LD1d.txt'' \<mapsto> ''one litre'']\<rparr>
      2 ''buy milk''
     = (\<lparr>todo_file = [],
          todo_bak = Some ''pay rent\<newline>buy milk des:0LD1d\<newline>call bob\<newline>'',
          description_dir = Directory,
          description_files = [''0LD1d.txt'' \<mapsto> ''one litre'', ''1a2b3c4d.txt'' \<mapsto> ''buy milk'']\<rparr>,
        Inl TypeError) \<and>
   get_task \<lparr>todo_file = [],
          todo_bak = Some ''pay rent\<newline>buy milk des:0LD1d\<newline>call bob\<newline>'',
          description_dir = Directory,
          description_files = [''0LD1d.txt'' \<mapsto> ''one litre'', ''1a2b3c4d.txt'' \<mapsto> ''buy milk'']\<rparr> 2
     = None"
  by (simp add: add_description_def get_task_def rewrite_todo_def write_mode_def print_to_def
      new_description_id_example)

text \<open>
  Claim C1 at \<open>add 1 "two litres"\<close> on a file of one line, followed by \<open>show 1\<close>. The
  claim asks \<open>show\<close> to print \<open>two litres\<close>. \<open>add\<close> ends with \<open>TypeError\<close> and exit
  status 1, the task file is empty, and \<open>show 1\<close> on the files left fails with "task not
  found".
\<close>

theorem add_then_show_fails:
  "add_description 0x1a2b3c4d00000000000000000000000000000000000000000000000000000000
      \<lparr>todo_file = ''buy milk\<newline>'', todo_bak = None, description_dir = Directory,
        description_files = Map.empty\<rparr> 1 ''two litres''
     = (\<lparr>todo_file = [], todo_bak = Some ''buy milk\<newline>'', description_dir = Directory,
          description_files = [''1a2b3c4d.txt'' \<mapsto> ''two litres'']\<rparr>,
        Inl TypeError) \<and>
   show_description
      \<lparr>todo_file = [], todo_bak = Some ''buy milk\<newline>'', description_dir = Directory,
        description_files = [''1a2b3c4d.txt'' \<mapsto> ''two litres'']\<rparr> 1
     = (\<lparr>todo_file = [], todo_bak = Some ''buy milk\<newline>'', description_dir = Directory,
          description_files = [''1a2b3c4d.txt'' \<mapsto> ''two litres'']\<rparr>,
        Inl (Task_not_found 1)) \<and>
   exit_code
     (add_description 0x1a2b3c4d00000000000000000000000000000000000000000000000000000000
        \<lparr>todo_file = ''buy milk\<newline>'', todo_bak = None, description_dir = Directory,
          description_files = Map.empty\<rparr> 1 ''two litres'') = 1"
  by (simp add: add_description_def show_description_def get_task_def rewrite_todo_def
      write_mode_def print_to_def new_description_id_example exit_code_def)

section \<open>The descriptions directory\<close>

text \<open>
  \<open>get_description_file\<close>, on the path of \<open>show\<close> and \<open>edit\<close>, fails exactly when the
  path exists and is no directory, and creates the directory when the path is absent.
  \<open>add_description\<close> tests \<open>is_dir()\<close> itself and fails whenever the path is not a
  directory, absent or not.
\<close>

lemma get_description_file_cases:
  "(snd (get_description_file s des_id) = Inl Not_a_directory \<longleftrightarrow> description_dir s = Other) \<and>
   (description_dir s \<noteq> Other \<longrightarrow>
      get_description_file s des_id = (s\<lparr>description_dir := Directory\<rparr>, Inr (des_id @ ''.txt'')))"
  by (cases "description_dir s") (simp_all add: get_description_file_def)

lemma add_description_directory_cases:
  assumes "get_task s t \<noteq> None"
  shows "add_description digest s t d = (s, Inl Not_a_directory) \<longleftrightarrow>
           description_dir s \<noteq> Directory"
proof (cases "description_dir s = Directory")
  case True
  with add_description_raises [OF assms True, of digest d] show ?thesis
    by simp
next
  case False
  with assms show ?thesis
    by (auto simp: add_description_def)
qed

text \<open>
  Claim C7 at a task file of one line with the descriptions path absent: \<open>add\<close> fails
  with "not a directory" and leaves the path absent, where \<open>get_description_file\<close>
  on the same files creates the directory and returns the file name.
\<close>

theorem add_description_absent_directory:
  "add_description 0x1a2b3c4d00000000000000000000000000000000000000000000000000000000
      \<lparr>todo_file = ''buy milk\<newline>'', todo_bak = None, description_dir = Absent,
        description_files = Map.empty\<rparr> 1 ''two litres''
     = (\<lparr>todo_file = ''buy milk\<newline>'', todo_bak = None, description_dir = Absent,
          description_files = Map.empty\<rparr>, Inl Not_a_directory) \<and>
   get_description_file
      \<lparr>todo_file = ''buy milk\<newline>'', todo_bak = None, description_dir = Absent,
        description_files = Map.empty\<rparr> ''1a2b3c4d''
     = (\<lparr>todo_file = ''buy milk\<newline>'', todo_bak = None, description_dir = Directory,
          description_files = Map.empty\<rparr>, Inr ''1a2b3c4d.txt'')"
  by (simp add: add_description_def get_task_def get_description_file_def)

end
